theory Spec2Isabelle
  imports Main "HOL-Library.Sublist"
begin

section \<open>The research assistant of \<^verbatim>\<open>agent_app.py\<close>: agent loop and question budget\<close>

text \<open>
  The program is one script. Its first half builds a two-node graph (\<^verbatim>\<open>agent\<close>,
  \<^verbatim>\<open>call_tool\<close>) over a state that holds a list of messages; its second half is the
  chat page, which keeps a chat history and a question counter in the session state and
  runs the graph once for every submitted prompt.

  What the script takes from its libraries and from outside is a parameter of the model:
  the chat model (\<^verbatim>\<open>llm_with_tools.invoke\<close>), the search tool, the chat input box
  (\<^verbatim>\<open>st.chat_input\<close>) and the recursion limit of the graph engine. Calls to the chat
  model and to the search tool are recorded in a log of events, so that statements about
  which collaborator was contacted, with what and how often, can be made.
\<close>

subsection \<open>Messages\<close>

text \<open>
  The message classes come from the chat library. A message is modelled by the
  attributes the script reads or sets: its class, \<^verbatim>\<open>content\<close>, \<^verbatim>\<open>tool_calls\<close> and, for a
  tool result, the identifier of the request it answers.
\<close>

datatype error = IndexError | CollaboratorError string | GraphRecursionError

record tool_call =
  tc_id :: string
  tc_name :: string
  tc_args :: string

datatype message_class = Human | AI | Tool

record message =
  message_class :: message_class
  content :: string
  tool_calls :: "tool_call list"
  tool_call_id :: "string option"

definition HumanMessage :: "string \<Rightarrow> message" where
  "HumanMessage c = \<lparr>message_class = Human, content = c, tool_calls = [], tool_call_id = None\<rparr>"

definition AIMessage :: "string \<Rightarrow> tool_call list \<Rightarrow> message" where
  "AIMessage c tcs = \<lparr>message_class = AI, content = c, tool_calls = tcs, tool_call_id = None\<rparr>"

definition ToolMessage :: "string \<Rightarrow> string \<Rightarrow> message" where
  "ToolMessage c i = \<lparr>message_class = Tool, content = c, tool_calls = [], tool_call_id = Some i\<rparr>"

subsection \<open>Collaborators and the log of their invocations\<close>

text \<open>
  The chat model receives the list of messages and returns one message, or raises.
  The search tool receives the arguments of one tool call and returns a text, fails, or
  returns nothing.
\<close>

type_synonym llm = "message list \<Rightarrow> error + message"

datatype tool_reply = Result string | Failure string | NoResult

type_synonym search_tool = "string \<Rightarrow> tool_reply"

datatype event = ModelCall "message list" | ToolCall tool_call

fun is_model_call :: "event \<Rightarrow> bool" where
  "is_model_call (ModelCall _) = True"
| "is_model_call (ToolCall _) = False"

definition model_invocations :: "event list \<Rightarrow> nat" where
  "model_invocations evs = length (filter is_model_call evs)"

definition tool_invocations :: "event list \<Rightarrow> nat" where
  "tool_invocations evs = length (filter (\<lambda>e. \<not> is_model_call e) evs)"

subsection \<open>The graph nodes\<close>

text \<open>
  \<^verbatim>\<open>AgentState\<close> has the single key \<^verbatim>\<open>messages\<close>; the state is modelled by the list at
  that key. A node returns the list the engine appends to it (the key's reducer is
  \<^verbatim>\<open>operator.add\<close>), together with the collaborator calls it made.
\<close>

definition agent_node :: "llm \<Rightarrow> message list \<Rightarrow> event list \<times> (error + message list)" where
  "agent_node llm_with_tools st =
     ([ModelCall st],
      case llm_with_tools st of
        Inl e \<Rightarrow> Inl e
      | Inr response \<Rightarrow> Inr [response])"

text \<open>
  Modelled from the spec: the prebuilt tool node (\<^verbatim>\<open>ToolNode(tools)\<close>), whose code is
  not part of the script, is described there as \<^verbatim>\<open>execute_tools\<close>. The four definitions
  below follow that description; the first is the error indication a failed call is
  given as content, with the test on a content that recognises it.
\<close>

definition error_indication :: "string \<Rightarrow> string" where
  "error_indication why = ''Error: '' @ why"


text \<open>
  Modelled from the spec: one requested call. The search collaborator is invoked with
  the supplied arguments and its output is wrapped in a tool message correlated to the
  request by its identifier; if the collaborator fails or returns no result, the
  message carries an error indication as its content.
\<close>

definition run_tool :: "search_tool \<Rightarrow> tool_call \<Rightarrow> message" where
  "run_tool search tc =
     (case search (tc_args tc) of
        Result out \<Rightarrow> ToolMessage out (tc_id tc)
      | Failure why \<Rightarrow> ToolMessage (error_indication why) (tc_id tc)
      | NoResult \<Rightarrow> ToolMessage (error_indication ''no result'') (tc_id tc))"

text \<open>
  Modelled from the spec: \<^verbatim>\<open>execute_tools\<close> handles the requested calls one by one, in
  order.
\<close>

definition execute_tools :: "search_tool \<Rightarrow> tool_call list \<Rightarrow> message list" where
  "execute_tools search tcs = map (run_tool search) tcs"

text \<open>
  Modelled from the spec: the node executes the tool calls of the last message of the
  state and returns the tool messages as its update.
\<close>

definition tool_node :: "search_tool \<Rightarrow> message list \<Rightarrow> event list \<times> (error + message list)" where
  "tool_node search st =
     (case st of
        [] \<Rightarrow> ([], Inl IndexError)
      | _ \<Rightarrow> (map ToolCall (tool_calls (last st)),
              Inr (execute_tools search (tool_calls (last st)))))"

subsection \<open>The conditional edge\<close>

datatype route = END | CALL_TOOL

definition should_continue :: "message list \<Rightarrow> error + route" where
  "should_continue st =
     (case st of
        [] \<Rightarrow> Inl IndexError
      | _ \<Rightarrow>
          (let last_message = last st
           in if tool_calls last_message = [] then Inr END else Inr CALL_TOOL))"

subsection \<open>The compiled graph\<close>

text \<open>
  The graph has the entry point \<^verbatim>\<open>agent\<close>, the conditional edge from \<^verbatim>\<open>agent\<close> decided by
  \<^verbatim>\<open>should_continue\<close>, and the edge from \<^verbatim>\<open>call_tool\<close> back to \<^verbatim>\<open>agent\<close>. A configuration of
  a run is the node to execute next (or the end, or the exception that stopped the run),
  the state, and the log. \<open>step\<close> executes one node and follows its outgoing edge.
\<close>

datatype position = AtAgent | AtCallTool | AtEND | Raised error

record config =
  position :: position
  transcript :: "message list"
  calls :: "event list"

definition step :: "llm \<Rightarrow> search_tool \<Rightarrow> config \<Rightarrow> config" where
  "step llm_with_tools search c =
     (case position c of
        AtAgent \<Rightarrow>
          (case agent_node llm_with_tools (transcript c) of
             (evs, Inl e) \<Rightarrow> c\<lparr>position := Raised e, calls := calls c @ evs\<rparr>
           | (evs, Inr update) \<Rightarrow>
               (let st = transcript c @ update
                in \<lparr>position =
                      (case should_continue st of
                         Inl e \<Rightarrow> Raised e
                       | Inr END \<Rightarrow> AtEND
                       | Inr CALL_TOOL \<Rightarrow> AtCallTool),
                    transcript = st,
                    calls = calls c @ evs\<rparr>))
      | AtCallTool \<Rightarrow>
          (case tool_node search (transcript c) of
             (evs, Inl e) \<Rightarrow> c\<lparr>position := Raised e, calls := calls c @ evs\<rparr>
           | (evs, Inr update) \<Rightarrow>
               \<lparr>position = AtAgent,
                transcript = transcript c @ update,
                calls = calls c @ evs\<rparr>)
      | AtEND \<Rightarrow> c
      | Raised e \<Rightarrow> c)"

fun running :: "position \<Rightarrow> bool" where
  "running AtAgent = True"
| "running AtCallTool = True"
| "running AtEND = False"
| "running (Raised e) = False"

text \<open>
  The script calls \<^verbatim>\<open>app.invoke(inputs)\<close> without a configuration, so the engine runs the
  graph under its own recursion limit. The limit is the library's and is a parameter
  here: a run executes at most \<open>recursion_limit\<close> nodes, and a run that has not reached
  the end by then stops with \<^verbatim>\<open>GraphRecursionError\<close>.
\<close>

fun run :: "nat \<Rightarrow> llm \<Rightarrow> search_tool \<Rightarrow> config \<Rightarrow> config" where
  "run 0 llm_with_tools search c =
     (if running (position c) then c\<lparr>position := Raised GraphRecursionError\<rparr> else c)"
| "run (Suc steps_left) llm_with_tools search c =
     (if running (position c)
      then run steps_left llm_with_tools search (step llm_with_tools search c)
      else c)"

definition entry_config :: "message list \<Rightarrow> config" where
  "entry_config inputs = \<lparr>position = AtAgent, transcript = inputs, calls = []\<rparr>"

definition app_invoke :: "nat \<Rightarrow> llm \<Rightarrow> search_tool \<Rightarrow> message list \<Rightarrow> config" where
  "app_invoke recursion_limit llm_with_tools search inputs =
     run recursion_limit llm_with_tools search (entry_config inputs)"

subsection \<open>The chat page\<close>

text \<open>
  The session state holds the chat history, a list of entries with a role and a content,
  and the question counter. Rendering calls are left out; what a run of the script
  reports is the new session state, how the prompt ended (with the rerun request of
  lines 179 and 180), and the log.
\<close>

record chat_entry =
  role :: string
  entry_content :: string

record session_state =
  messages :: "chat_entry list"
  question_count :: int

definition MAX_QUESTIONS :: int where
  "MAX_QUESTIONS = 4"

definition initial_session :: session_state where
  "initial_session = \<lparr>messages = [], question_count = 0\<rparr>"

definition questions_left :: "session_state \<Rightarrow> int" where
  "questions_left s = MAX_QUESTIONS - question_count s"

definition is_disabled :: "session_state \<Rightarrow> bool" where
  "is_disabled s = (questions_left s \<le> 0)"

text \<open>
  The input box \<^verbatim>\<open>st.chat_input\<close> is the library's and is a parameter: a function from
  the \<^verbatim>\<open>disabled\<close> flag the script passes to what the call returns in this run, the
  submitted text or nothing. Whether a box that is passed \<^verbatim>\<open>disabled=True\<close> can still
  return a text is up to the library; the script does not decide it.
\<close>

type_synonym input_box = "bool \<Rightarrow> string option"

datatype outcome = NoPrompt | Answered string bool | Crashed error

text \<open>
  The body of \<^verbatim>\<open>if prompt:\<close>. The counter and the user entry are written before the graph
  runs; an exception of the graph leaves the block at that point.
\<close>

definition inputs :: "string \<Rightarrow> message list" where
  "inputs prompt = [HumanMessage prompt]"

definition process_prompt ::
  "nat \<Rightarrow> llm \<Rightarrow> search_tool \<Rightarrow> session_state \<Rightarrow> string \<Rightarrow> session_state \<times> outcome \<times> event list" where
  "process_prompt recursion_limit llm_with_tools search s prompt =
     (let s1 = s\<lparr>question_count := question_count s + 1\<rparr>;
          s2 = s1\<lparr>messages := messages s1 @ [\<lparr>role = ''user'', entry_content = prompt\<rparr>]\<rparr>;
          final_state = app_invoke recursion_limit llm_with_tools search (inputs prompt)
      in case position final_state of
           Raised e \<Rightarrow> (s2, Crashed e, calls final_state)
         | _ \<Rightarrow>
             (case transcript final_state of
                [] \<Rightarrow> (s2, Crashed IndexError, calls final_state)
              | _ \<Rightarrow>
                  (let response_content = content (last (transcript final_state));
                       s3 = s2\<lparr>messages := messages s2 @
                              [\<lparr>role = ''assistant'', entry_content = response_content\<rparr>]\<rparr>
                   in (s3,
                       Answered response_content (question_count s3 \<ge> MAX_QUESTIONS),
                       calls final_state))))"

text \<open>
  One run of the script. Lines 138 to 150 compute the flag from the counter and pass it
  to the input box; line 153 processes whatever non-empty text the box returns. There is
  no other test of the counter.
\<close>

definition script_run ::
  "nat \<Rightarrow> input_box \<Rightarrow> llm \<Rightarrow> search_tool \<Rightarrow> session_state \<Rightarrow> session_state \<times> outcome \<times> event list" where
  "script_run recursion_limit chat_input llm_with_tools search s =
     (case chat_input (is_disabled s) of
        None \<Rightarrow> (s, NoPrompt, [])
      | Some prompt \<Rightarrow>
          (if prompt = [] then (s, NoPrompt, [])
           else process_prompt recursion_limit llm_with_tools search s prompt))"

text \<open>
  A session is a sequence of script runs, each with what the input box does in it; the
  session state survives a run that ended in an exception.
\<close>

fun run_session ::
  "nat \<Rightarrow> input_box list \<Rightarrow> llm \<Rightarrow> search_tool \<Rightarrow> session_state \<Rightarrow> session_state" where
  "run_session recursion_limit [] llm_with_tools search s = s"
| "run_session recursion_limit (chat_input # rest) llm_with_tools search s =
     run_session recursion_limit rest llm_with_tools search
       (fst (script_run recursion_limit chat_input llm_with_tools search s))"

subsection \<open>An invariant of the run\<close>

text \<open>
  Whenever the run is at the tool node or at the end, the agent node has appended a
  message, so the state is not empty.
\<close>

definition well_placed :: "config \<Rightarrow> bool" where
  "well_placed c = (position c \<in> {AtEND, AtCallTool} \<longrightarrow> transcript c \<noteq> [])"

subsection \<open>Stub collaborators and sample sessions\<close>

text \<open>
  Scripted collaborators in the sense of the test plan: a model that answers at once, a
  model that answers with the content of the first message it is given, a model that
  cannot be reached, a model that cannot be reached for the question \<^verbatim>\<open>crash\<close> only,
  and a search tool without results. Three input boxes: one in which nothing is
  submitted, one that returns the submitted text unless it is passed the disabled flag,
  and one that returns the submitted text whatever the flag.
\<close>

definition answers_at_once :: llm where
  "answers_at_once ms = Inr (AIMessage ''4'' [])"

definition no_search :: search_tool where
  "no_search q = NoResult"

definition echo_first :: llm where
  "echo_first ms = (case ms of [] \<Rightarrow> Inl IndexError | m # _ \<Rightarrow> Inr (AIMessage (content m) []))"

definition unreachable_llm :: llm where
  "unreachable_llm ms = Inl (CollaboratorError ''model unreachable'')"

definition unreachable_for_crash :: llm where
  "unreachable_for_crash ms =
     (case ms of
        [] \<Rightarrow> Inl IndexError
      | _ \<Rightarrow>
          (if content (last ms) = ''crash''
           then Inl (CollaboratorError ''model unreachable'')
           else Inr (AIMessage ''4'' [])))"


definition locked_when_disabled :: "string \<Rightarrow> input_box" where
  "locked_when_disabled submitted disabled = (if disabled then None else Some submitted)"

definition hands_over :: "string \<Rightarrow> input_box" where
  "hands_over submitted disabled = Some submitted"

text \<open>
  Sample sessions: after one answered question, after two, after four, and after three
  answered questions and a fourth whose graph run raised. \<open>full_session_transcript\<close> is
  the input the specification describes for the agent loop: the whole chat history as
  messages, followed by the new question.
\<close>

definition session_after_one :: session_state where
  "session_after_one =
     \<lparr>messages = [\<lparr>role = ''user'', entry_content = ''first''\<rparr>,
                  \<lparr>role = ''assistant'', entry_content = ''one''\<rparr>],
      question_count = 1\<rparr>"



definition session_after_crash :: session_state where
  "session_after_crash =
     \<lparr>messages = concat (replicate 3 [\<lparr>role = ''user'', entry_content = ''2+2?''\<rparr>,
                                       \<lparr>role = ''assistant'', entry_content = ''4''\<rparr>]) @
                 [\<lparr>role = ''user'', entry_content = ''crash''\<rparr>],
      question_count = 4\<rparr>"

definition entry_message :: "chat_entry \<Rightarrow> message" where
  "entry_message e =
     (if role e = ''user'' then HumanMessage (entry_content e) else AIMessage (entry_content e) [])"

definition full_session_transcript :: "session_state \<Rightarrow> string \<Rightarrow> message list" where
  "full_session_transcript s prompt = map entry_message (messages s) @ [HumanMessage prompt]"

text \<open>
  The scenario of the test plan with one search: the model first requests the tool with
  the query \<^verbatim>\<open>Apple stock price\<close> and, once a tool result is the last message, answers
  with it. \<open>apple_run\<close> is what the graph returns for it, \<open>unreachable_run\<close> what it
  returns when the model cannot be reached.
\<close>

definition search_call :: "string \<Rightarrow> string \<Rightarrow> tool_call" where
  "search_call i query = \<lparr>tc_id = i, tc_name = ''tavily_search'', tc_args = query\<rparr>"

definition asks_price_then_answers :: llm where
  "asks_price_then_answers ms =
     (case ms of
        [] \<Rightarrow> Inl IndexError
      | _ \<Rightarrow>
          (if message_class (last ms) = Tool
           then Inr (AIMessage (''The price is '' @ content (last ms)) [])
           else Inr (AIMessage [] [search_call ''call_1'' ''Apple stock price''])))"

definition price_search :: search_tool where
  "price_search query = (if query = ''Apple stock price'' then Result ''$150'' else Failure ''unknown query'')"

definition apple_run :: config where
  "apple_run =
     \<lparr>position = AtEND,
      transcript = [HumanMessage ''Apple?'',
                    AIMessage [] [search_call ''call_1'' ''Apple stock price''],
                    ToolMessage ''$150'' ''call_1'',
                    AIMessage ''The price is $150'' []],
      calls = [ModelCall [HumanMessage ''Apple?''],
               ToolCall (search_call ''call_1'' ''Apple stock price''),
               ModelCall [HumanMessage ''Apple?'',
                          AIMessage [] [search_call ''call_1'' ''Apple stock price''],
                          ToolMessage ''$150'' ''call_1'']]\<rparr>"

definition unreachable_run :: config where
  "unreachable_run =
     \<lparr>position = Raised (CollaboratorError ''model unreachable''),
      transcript = [HumanMessage ''2+2?''],
      calls = [ModelCall [HumanMessage ''2+2?'']]\<rparr>"

text \<open>
  A model that requests the search tool until the state holds \<open>k\<close> of its own messages
  and then answers, and the scenario of the test plan with a failing search: the model
  requests the query \<^verbatim>\<open>???\<close>, which the search stub does not know.
\<close>

definition is_ai :: "message \<Rightarrow> bool" where
  "is_ai m = (message_class m = AI)"

definition keeps_asking :: "nat \<Rightarrow> llm" where
  "keeps_asking k ms =
     (if length (filter is_ai ms) < k
      then Inr (AIMessage [] [search_call ''call'' ''more''])
      else Inr (AIMessage ''done'' []))"



section \<open>Basic facts about the graph run\<close>

lemma should_continue_nonempty:
  "st \<noteq> [] \<Longrightarrow>
   should_continue st = (if tool_calls (last st) = [] then Inr END else Inr CALL_TOOL)"
  by (cases st) (simp_all add: should_continue_def)

lemma step_stopped: "\<not> running (position c) \<Longrightarrow> step l t c = c"
  by (cases "position c") (simp_all add: step_def)

lemma funpow_step_stopped: "\<not> running (position c) \<Longrightarrow> (step l t ^^ n) c = c"
proof (induction n)
  case 0
  show ?case by simp
next
  case (Suc n)
  then have "(step l t ^^ n) c = c" by simp
  moreover have "step l t c = c" using Suc.prems by (rule step_stopped)
  ultimately show ?case by simp
qed

lemma stopped_stays:
  assumes "\<not> running (position ((step l t ^^ n) c))" and "n \<le> m"
  shows "(step l t ^^ m) c = (step l t ^^ n) c"
proof -
  from assms(2) obtain d where m: "m = d + n" by (metis le_add_diff_inverse2)
  have "(step l t ^^ (d + n)) c = (step l t ^^ d) ((step l t ^^ n) c)"
    by (simp add: funpow_add)
  also have "\<dots> = (step l t ^^ n) c" using assms(1) by (rule funpow_step_stopped)
  finally show ?thesis by (simp add: m)
qed

text \<open>A run under a limit is the iterated step, cut off at the limit.\<close>

lemma run_funpow:
  "run k l t c =
     (if running (position ((step l t ^^ k) c))
      then ((step l t ^^ k) c)\<lparr>position := Raised GraphRecursionError\<rparr>
      else (step l t ^^ k) c)"
proof (induction k arbitrary: c)
  case 0
  show ?case by simp
next
  case (Suc k)
  show ?case
  proof (cases "running (position c)")
    case True
    then have "run (Suc k) l t c = run k l t (step l t c)" by simp
    also have "\<dots> = (if running (position ((step l t ^^ k) (step l t c)))
        then ((step l t ^^ k) (step l t c))\<lparr>position := Raised GraphRecursionError\<rparr>
        else (step l t ^^ k) (step l t c))" by (rule Suc.IH)
    finally show ?thesis by (simp add: funpow_swap1)
  next
    case False
    then have "(step l t ^^ Suc k) c = c" by (rule funpow_step_stopped)
    with False show ?thesis by simp
  qed
qed

lemma run_ends: "\<not> running (position (run k l t c))"
  by (simp add: run_funpow)

lemma run_reaches:
  assumes "\<not> running (position ((step l t ^^ n) c))" and "n \<le> k"
  shows "run k l t c = (step l t ^^ n) c"
proof -
  have "(step l t ^^ k) c = (step l t ^^ n) c" using assms by (rule stopped_stays)
  with assms(1) show ?thesis by (simp add: run_funpow)
qed

lemma run_out_of_steps:
  "running (position ((step l t ^^ k) c)) \<Longrightarrow>
   run k l t c = ((step l t ^^ k) c)\<lparr>position := Raised GraphRecursionError\<rparr>"
  by (simp add: run_funpow)

lemma run_at_end:
  "position (run k l t c) = AtEND \<Longrightarrow> run k l t c = (step l t ^^ k) c"
  by (simp add: run_funpow split: if_splits)

lemma run_transcript: "transcript (run k l t c) = transcript ((step l t ^^ k) c)"
  and run_calls: "calls (run k l t c) = calls ((step l t ^^ k) c)"
  by (simp_all add: run_funpow)

subsection \<open>Single steps\<close>

lemma step_agent:
  "position c = AtAgent \<Longrightarrow> l (transcript c) = Inr r \<Longrightarrow>
   step l t c = \<lparr>position = (if tool_calls r = [] then AtEND else AtCallTool),
                 transcript = transcript c @ [r],
                 calls = calls c @ [ModelCall (transcript c)]\<rparr>"
  by (simp add: step_def agent_node_def should_continue_nonempty)

lemma step_agent_raises:
  "position c = AtAgent \<Longrightarrow> l (transcript c) = Inl e \<Longrightarrow>
   step l t c = c\<lparr>position := Raised e, calls := calls c @ [ModelCall (transcript c)]\<rparr>"
  by (simp add: step_def agent_node_def)

lemma step_agent_calls:
  "position c = AtAgent \<Longrightarrow> calls (step l t c) = calls c @ [ModelCall (transcript c)]"
  by (cases "l (transcript c)") (simp_all add: step_agent step_agent_raises)

lemma step_call_tool:
  "position c = AtCallTool \<Longrightarrow> transcript c \<noteq> [] \<Longrightarrow>
   step l t c = \<lparr>position = AtAgent,
                 transcript = transcript c @ execute_tools t (tool_calls (last (transcript c))),
                 calls = calls c @ map ToolCall (tool_calls (last (transcript c)))\<rparr>"
  by (cases "transcript c") (simp_all add: step_def tool_node_def)

lemma step_call_tool_empty:
  "position c = AtCallTool \<Longrightarrow> transcript c = [] \<Longrightarrow>
   step l t c = c\<lparr>position := Raised IndexError\<rparr>"
  by (simp add: step_def tool_node_def)

lemma step_extends:
  "prefix (transcript c) (transcript (step l t c)) \<and> prefix (calls c) (calls (step l t c))"
proof (cases "position c")
  case AtAgent
  then show ?thesis
    by (cases "l (transcript c)") (simp_all add: step_agent step_agent_raises)
next
  case AtCallTool
  then show ?thesis
    by (cases "transcript c = []") (simp_all add: step_call_tool step_call_tool_empty)
next
  case AtEND
  then show ?thesis by (simp add: step_stopped)
next
  case (Raised e)
  then show ?thesis by (simp add: step_stopped)
qed

lemma funpow_step_extends:
  "prefix (transcript c) (transcript ((step l t ^^ n) c)) \<and>
   prefix (calls c) (calls ((step l t ^^ n) c))"
proof (induction n)
  case 0
  show ?case by simp
next
  case (Suc n)
  have "prefix (transcript ((step l t ^^ n) c)) (transcript ((step l t ^^ Suc n) c))"
    and "prefix (calls ((step l t ^^ n) c)) (calls ((step l t ^^ Suc n) c))"
    using step_extends[where c="(step l t ^^ n) c" and l=l and t=t] by simp_all
  with Suc show ?case by (meson prefix_order.order_trans)
qed

lemma run_extends:
  "prefix (transcript c) (transcript (run k l t c))"
  "prefix (calls c) (calls (run k l t c))"
  using funpow_step_extends[where c=c and l=l and t=t and n=k]
  by (simp_all add: run_transcript run_calls)

lemma step_well_placed: "well_placed c \<Longrightarrow> well_placed (step l t c)"
proof (cases "position c")
  case AtAgent
  then show ?thesis
    by (cases "l (transcript c)") (simp_all add: step_agent step_agent_raises well_placed_def)
next
  case AtCallTool
  assume "well_placed c"
  with AtCallTool have "transcript c \<noteq> []" by (simp add: well_placed_def)
  with AtCallTool show ?thesis by (simp add: step_call_tool well_placed_def)
next
  case AtEND
  assume "well_placed c"
  with AtEND show ?thesis by (simp add: step_stopped)
next
  case (Raised e)
  assume "well_placed c"
  with Raised show ?thesis by (simp add: step_stopped)
qed

lemma funpow_well_placed: "well_placed c \<Longrightarrow> well_placed ((step l t ^^ n) c)"
  by (induction n) (simp_all add: step_well_placed)

lemma well_placed_entry: "well_placed (entry_config inp)"
  by (simp add: well_placed_def entry_config_def)

subsection \<open>What \<^verbatim>\<open>app.invoke\<close> returns\<close>

lemma app_invoke_ends: "\<not> running (position (app_invoke lim l t inp))"
  by (simp add: app_invoke_def run_ends)


lemma app_invoke_nonempty:
  assumes "position (app_invoke lim l t inp) = AtEND"
  shows "transcript (app_invoke lim l t inp) \<noteq> []"
proof -
  from assms have "app_invoke lim l t inp = (step l t ^^ lim) (entry_config inp)"
    by (simp add: app_invoke_def run_at_end)
  moreover have "well_placed ((step l t ^^ lim) (entry_config inp))"
    using well_placed_entry by (rule funpow_well_placed)
  ultimately show ?thesis using assms by (simp add: well_placed_def)
qed

lemma app_invoke_first_call:
  assumes "position (app_invoke lim l t inp) = AtEND"
  shows "prefix [ModelCall inp] (calls (app_invoke lim l t inp))"
proof (cases lim)
  case 0
  with assms show ?thesis by (simp add: app_invoke_def entry_config_def)
next
  case (Suc k)
  let ?c0 = "entry_config inp"
  have "app_invoke lim l t inp = run k l t (step l t ?c0)"
    by (simp add: Suc app_invoke_def entry_config_def)
  moreover have "calls (step l t ?c0) = [ModelCall inp]"
    by (simp add: step_agent_calls entry_config_def)
  ultimately show ?thesis
    using run_extends(2)[where c = "step l t ?c0" and k = k and l = l and t = t] by simp
qed

lemma app_invoke_immediate:
  assumes "0 < lim" and "l inp = Inr r" and "tool_calls r = []"
  shows "app_invoke lim l t inp = \<lparr>position = AtEND, transcript = inp @ [r], calls = [ModelCall inp]\<rparr>"
proof -
  let ?c0 = "entry_config inp"
  have s: "(step l t ^^ 1) ?c0 = \<lparr>position = AtEND, transcript = inp @ [r], calls = [ModelCall inp]\<rparr>"
    using assms(2,3) by (simp add: step_agent entry_config_def)
  then have "\<not> running (position ((step l t ^^ 1) ?c0))" by simp
  moreover have "1 \<le> lim" using assms(1) by simp
  ultimately have "run lim l t ?c0 = (step l t ^^ 1) ?c0" by (rule run_reaches)
  with s show ?thesis by (simp add: app_invoke_def)
qed

lemma process_prompt_answered:
  assumes "position (app_invoke lim l t (inputs q)) = AtEND"
  shows "process_prompt lim l t s q =
     (s\<lparr>question_count := question_count s + 1,
        messages := messages s @
          [\<lparr>role = ''user'', entry_content = q\<rparr>,
           \<lparr>role = ''assistant'',
            entry_content = content (last (transcript (app_invoke lim l t (inputs q))))\<rparr>]\<rparr>,
      Answered (content (last (transcript (app_invoke lim l t (inputs q)))))
        (question_count s + 1 \<ge> MAX_QUESTIONS),
      calls (app_invoke lim l t (inputs q)))"
proof -
  from app_invoke_nonempty[OF assms] obtain m ms
    where "transcript (app_invoke lim l t (inputs q)) = m # ms"
    by (cases "transcript (app_invoke lim l t (inputs q))") simp_all
  with assms show ?thesis by (simp add: process_prompt_def Let_def)
qed

lemma process_prompt_crashed:
  assumes "position (app_invoke lim l t (inputs q)) = Raised e"
  shows "process_prompt lim l t s q =
     (s\<lparr>question_count := question_count s + 1,
        messages := messages s @ [\<lparr>role = ''user'', entry_content = q\<rparr>]\<rparr>,
      Crashed e, calls (app_invoke lim l t (inputs q)))"
  using assms by (simp add: process_prompt_def Let_def)

lemma script_run_accepts:
  "box (is_disabled s) = Some q \<Longrightarrow> q \<noteq> [] \<Longrightarrow>
   script_run lim box l t s = process_prompt lim l t s q"
  by (simp add: script_run_def)

lemma process_prompt_immediate:
  assumes "0 < lim" and "l (inputs q) = Inr r" and "tool_calls r = []"
  shows "process_prompt lim l t s q =
     (s\<lparr>question_count := question_count s + 1,
        messages := messages s @
          [\<lparr>role = ''user'', entry_content = q\<rparr>,
           \<lparr>role = ''assistant'', entry_content = content r\<rparr>]\<rparr>,
      Answered (content r) (question_count s + 1 \<ge> MAX_QUESTIONS),
      [ModelCall (inputs q)])"
proof -
  have a: "app_invoke lim l t (inputs q) =
      \<lparr>position = AtEND, transcript = inputs q @ [r], calls = [ModelCall (inputs q)]\<rparr>"
    using assms by (rule app_invoke_immediate)
  then have "position (app_invoke lim l t (inputs q)) = AtEND" by simp
  from process_prompt_answered[OF this, of s] show ?thesis by (simp add: a)
qed

subsection \<open>Effect of a script run on the session state\<close>

lemma process_prompt_effect:
  "question_count (fst (process_prompt lim l t s q)) = question_count s + 1"
  "prefix (messages s @ [\<lparr>role = ''user'', entry_content = q\<rparr>])
     (messages (fst (process_prompt lim l t s q)))"
  by (auto simp: process_prompt_def Let_def split: position.splits list.splits)



subsection \<open>What the model has seen stays in the state\<close>




subsection \<open>Rounds of the loop\<close>

lemma run_stopped: "\<not> running (position c) \<Longrightarrow> run k l t c = c"
  by (cases k) simp_all

lemma run_tool_class: "message_class (run_tool t tc) = Tool"
  and run_tool_id: "tool_call_id (run_tool t tc) = Some (tc_id tc)"
  by (cases "t (tc_args tc)"; simp add: run_tool_def ToolMessage_def)+


lemma run_ends_when_model_stops_asking:
  assumes "n < lim" and "position ((step l t ^^ n) c) = AtAgent"
    and "l (transcript ((step l t ^^ n) c)) = Inr r" and "tool_calls r = []"
  shows "run lim l t c = \<lparr>position = AtEND,
                           transcript = transcript ((step l t ^^ n) c) @ [r],
                           calls = calls ((step l t ^^ n) c) @ [ModelCall (transcript ((step l t ^^ n) c))]\<rparr>"
proof -
  let ?cn = "(step l t ^^ n) c"
  have s: "(step l t ^^ Suc n) c = \<lparr>position = AtEND, transcript = transcript ?cn @ [r],
                           calls = calls ?cn @ [ModelCall (transcript ?cn)]\<rparr>"
    using assms(2-4) by (simp add: step_agent)
  then have "\<not> running (position ((step l t ^^ Suc n) c))" by simp
  moreover have "Suc n \<le> lim" using assms(1) by simp
  ultimately have "run lim l t c = (step l t ^^ Suc n) c" by (rule run_reaches)
  with s show ?thesis by simp
qed

lemma tool_step_returns_to_agent:
  assumes "position ((step l t ^^ n) (entry_config inp)) = AtCallTool"
  shows "position ((step l t ^^ Suc n) (entry_config inp)) = AtAgent"
proof -
  let ?cn = "(step l t ^^ n) (entry_config inp)"
  have "well_placed ?cn" using well_placed_entry by (rule funpow_well_placed)
  with assms have "transcript ?cn \<noteq> []" by (simp add: well_placed_def)
  with assms show ?thesis by (simp add: step_call_tool)
qed

lemma keeps_asking_run:
  assumes "position c = AtAgent" and "length (filter is_ai (transcript c)) = j" and "j \<le> k"
    and "2 * (k - j) + 1 \<le> f"
  shows "position (run f (keeps_asking k) t c) = AtEND \<and>
         model_invocations (calls (run f (keeps_asking k) t c)) =
           model_invocations (calls c) + (k - j) + 1 \<and>
         tool_invocations (calls (run f (keeps_asking k) t c)) =
           tool_invocations (calls c) + (k - j)"
  using assms
proof (induction "k - j" arbitrary: c j f)
  case 0
  then have jk: "j = k" by simp
  from 0 obtain f' where f: "f = Suc f'" by (cases f) simp_all
  let ?r = "AIMessage ''done'' []"
  have a: "keeps_asking k (transcript c) = Inr ?r"
    using 0 jk by (simp add: keeps_asking_def)
  have b: "tool_calls ?r = []" by (simp add: AIMessage_def)
  have s: "step (keeps_asking k) t c = \<lparr>position = AtEND, transcript = transcript c @ [?r],
           calls = calls c @ [ModelCall (transcript c)]\<rparr>"
    using 0(2) a b by (simp add: step_agent)
  have "run f (keeps_asking k) t c = run f' (keeps_asking k) t (step (keeps_asking k) t c)"
    using 0(2) by (simp add: f)
  also have "\<dots> = step (keeps_asking k) t c" by (rule run_stopped) (simp add: s)
  finally show ?case using jk by (simp add: s model_invocations_def tool_invocations_def)
next
  case (Suc d)
  then have lt: "j < k" by simp
  with Suc.prems(4) obtain f' where f: "f = Suc (Suc f')"
    by (cases f; cases "f - 1") simp_all
  let ?tc = "search_call ''call'' ''more''"
  let ?r = "AIMessage [] [?tc]"
  have a: "keeps_asking k (transcript c) = Inr ?r"
    using Suc lt by (simp add: keeps_asking_def)
  have b: "tool_calls ?r = [?tc]" by (simp add: AIMessage_def)
  let ?c1 = "step (keeps_asking k) t c"
  have c1: "?c1 = \<lparr>position = AtCallTool, transcript = transcript c @ [?r],
                   calls = calls c @ [ModelCall (transcript c)]\<rparr>"
    using Suc.prems(1) a b by (simp add: step_agent)
  let ?c2 = "step (keeps_asking k) t ?c1"
  have c2: "?c2 = \<lparr>position = AtAgent, transcript = transcript c @ [?r] @ [run_tool t ?tc],
                   calls = calls c @ [ModelCall (transcript c)] @ [ToolCall ?tc]\<rparr>"
    by (simp add: c1 step_call_tool b execute_tools_def)
  have ai: "is_ai ?r" by (simp add: is_ai_def AIMessage_def)
  have nt: "\<not> is_ai (run_tool t ?tc)" by (simp add: is_ai_def run_tool_class)
  have p1: "position ?c2 = AtAgent" by (simp add: c2)
  have p2: "length (filter is_ai (transcript ?c2)) = Suc j"
    using Suc.prems(2) ai nt by (simp add: c2)
  have p3: "Suc j \<le> k" using lt by simp
  have p4: "2 * (k - Suc j) + 1 \<le> f'" using Suc.prems(4) lt f by simp
  have d: "d = k - Suc j" using Suc.hyps(2) by simp
  note ih = Suc.hyps(1)[OF d p1 p2 p3 p4]
  have "run f (keeps_asking k) t c = run (Suc f') (keeps_asking k) t ?c1"
    using Suc.prems(1) by (simp add: f)
  also have "\<dots> = run f' (keeps_asking k) t ?c2" by (simp add: c1)
  finally have r: "run f (keeps_asking k) t c = run f' (keeps_asking k) t ?c2" .
  have m: "model_invocations (calls ?c2) = model_invocations (calls c) + 1"
    and u: "tool_invocations (calls ?c2) = tool_invocations (calls c) + 1"
    by (simp_all add: c2 model_invocations_def tool_invocations_def)
  have e: "k - j = Suc (k - Suc j)" using lt by simp
  from ih show ?case by (simp add: r m u e)
qed

lemma no_cap_below_the_limit:
  assumes "2 * k + 1 \<le> lim"
  shows "position (app_invoke lim (keeps_asking k) t (inputs q)) = AtEND \<and>
         model_invocations (calls (app_invoke lim (keeps_asking k) t (inputs q))) = k + 1 \<and>
         tool_invocations (calls (app_invoke lim (keeps_asking k) t (inputs q))) = k"
proof -
  let ?c = "entry_config (inputs q)"
  have "position ?c = AtAgent" by (simp add: entry_config_def)
  moreover have "length (filter is_ai (transcript ?c)) = 0"
    by (simp add: entry_config_def inputs_def is_ai_def HumanMessage_def)
  moreover have "(0::nat) \<le> k" by simp
  moreover have "2 * (k - 0) + 1 \<le> lim" using assms by simp
  ultimately have "position (run lim (keeps_asking k) t ?c) = AtEND \<and>
         model_invocations (calls (run lim (keeps_asking k) t ?c)) =
           model_invocations (calls ?c) + (k - 0) + 1 \<and>
         tool_invocations (calls (run lim (keeps_asking k) t ?c)) =
           tool_invocations (calls ?c) + (k - 0)"
    by (rule keeps_asking_run)
  then show ?thesis
    by (simp add: app_invoke_def entry_config_def model_invocations_def tool_invocations_def)
qed

lemma keeps_asking_funpow:
  assumes "position c = AtAgent" and "length (filter is_ai (transcript c)) = j" and "j \<le> k"
  shows "position ((step (keeps_asking k) t ^^ (2 * (k - j))) c) = AtAgent \<and>
         length (filter is_ai (transcript ((step (keeps_asking k) t ^^ (2 * (k - j))) c))) = k"
  using assms
proof (induction "k - j" arbitrary: c j)
  case 0
  then show ?case by simp
next
  case (Suc d)
  then have lt: "j < k" by simp
  let ?tc = "search_call ''call'' ''more''"
  let ?r = "AIMessage [] [?tc]"
  have a: "keeps_asking k (transcript c) = Inr ?r"
    using Suc lt by (simp add: keeps_asking_def)
  have b: "tool_calls ?r = [?tc]" by (simp add: AIMessage_def)
  let ?c1 = "step (keeps_asking k) t c"
  have c1: "?c1 = \<lparr>position = AtCallTool, transcript = transcript c @ [?r],
                   calls = calls c @ [ModelCall (transcript c)]\<rparr>"
    using Suc.prems(1) a b by (simp add: step_agent)
  let ?c2 = "step (keeps_asking k) t ?c1"
  have c2: "?c2 = \<lparr>position = AtAgent, transcript = transcript c @ [?r] @ [run_tool t ?tc],
                   calls = calls c @ [ModelCall (transcript c)] @ [ToolCall ?tc]\<rparr>"
    by (simp add: c1 step_call_tool b execute_tools_def)
  have ai: "is_ai ?r" by (simp add: is_ai_def AIMessage_def)
  have nt: "\<not> is_ai (run_tool t ?tc)" by (simp add: is_ai_def run_tool_class)
  have p1: "position ?c2 = AtAgent" by (simp add: c2)
  have p2: "length (filter is_ai (transcript ?c2)) = Suc j"
    using Suc.prems(2) ai nt by (simp add: c2)
  have p3: "Suc j \<le> k" using lt by simp
  have d: "d = k - Suc j" using Suc.hyps(2) by simp
  note ih = Suc.hyps(1)[OF d p1 p2 p3]
  have e: "2 * (k - j) = Suc (Suc (2 * (k - Suc j)))" using lt by simp
  have "(step (keeps_asking k) t ^^ (2 * (k - j))) c =
        (step (keeps_asking k) t ^^ (2 * (k - Suc j))) ?c2"
    by (simp only: e funpow_Suc_right o_apply)
  with ih show ?case by simp
qed

lemma keeps_asking_answers_late:
  "position ((step (keeps_asking k) t ^^ (2 * k)) (entry_config (inputs q))) = AtAgent \<and>
   keeps_asking k (transcript ((step (keeps_asking k) t ^^ (2 * k)) (entry_config (inputs q)))) =
     Inr (AIMessage ''done'' [])"
proof -
  let ?c = "entry_config (inputs q)"
  have "position ?c = AtAgent" by (simp add: entry_config_def)
  moreover have "length (filter is_ai (transcript ?c)) = 0"
    by (simp add: entry_config_def inputs_def is_ai_def HumanMessage_def)
  moreover have "(0::nat) \<le> k" by simp
  ultimately have "position ((step (keeps_asking k) t ^^ (2 * (k - 0))) ?c) = AtAgent \<and>
      length (filter is_ai (transcript ((step (keeps_asking k) t ^^ (2 * (k - 0))) ?c))) = k"
    by (rule keeps_asking_funpow)
  then show ?thesis by (simp add: keeps_asking_def)
qed

lemma keeps_asking_cut_off:
  assumes "lim < 2 * k + 1"
  shows "position (app_invoke lim (keeps_asking k) t (inputs q)) = Raised GraphRecursionError"
proof -
  let ?c = "entry_config (inputs q)" and ?l = "keeps_asking k"
  have late: "running (position ((step ?l t ^^ (2 * k)) ?c))"
    using keeps_asking_answers_late[of k t q] by simp
  have "running (position ((step ?l t ^^ lim) ?c))"
  proof (rule ccontr)
    assume "\<not> running (position ((step ?l t ^^ lim) ?c))"
    moreover have "lim \<le> 2 * k" using assms by simp
    ultimately have "(step ?l t ^^ (2 * k)) ?c = (step ?l t ^^ lim) ?c" by (rule stopped_stays)
    with late \<open>\<not> running (position ((step ?l t ^^ lim) ?c))\<close> show False by simp
  qed
  then show ?thesis by (simp add: app_invoke_def run_out_of_steps)
qed

section \<open>Properties\<close>

subsection \<open>Routing\<close>

text \<open>
  C5: the routing decision looks only at the most recently appended message. Two states
  that end in the same message are routed alike, whatever precedes it; the route is the
  end of the loop when that message's \<^verbatim>\<open>tool_calls\<close> is empty and tool execution otherwise.
\<close>

theorem should_continue_last_only:
  "should_continue (before @ [m]) = should_continue (other @ [m]) \<and>
   should_continue (before @ [m]) = (if tool_calls m = [] then Inr END else Inr CALL_TOOL)"
  by (simp add: should_continue_nonempty)

subsection \<open>A final answer at once\<close>

text \<open>
  C8: when the model answers the submitted question at once with a message without tool
  calls, an accepted submission returns exactly the content of that message, the model
  has been invoked exactly once and the tool not at all. The recursion limit of the
  engine is at least one.
\<close>

theorem immediate_answer:
  "0 < lim \<Longrightarrow> l (inputs q) = Inr r \<Longrightarrow> tool_calls r = [] \<Longrightarrow> q \<noteq> [] \<Longrightarrow>
   0 < questions_left s \<Longrightarrow> box (is_disabled s) = Some q \<Longrightarrow>
   \<exists>s' rerun evs. script_run lim box l t s = (s', Answered (content r) rerun, evs) \<and>
      model_invocations evs = 1 \<and> tool_invocations evs = 0"
proof -
  assume lim: "0 < lim" and a: "l (inputs q) = Inr r" "tool_calls r = []"
    and q: "q \<noteq> []" and b: "box (is_disabled s) = Some q"
  have "script_run lim box l t s = process_prompt lim l t s q"
    using b q by (rule script_run_accepts)
  with process_prompt_immediate[where lim = lim and l = l and q = q and r = r and t = t and s = s,
      OF lim a] show ?thesis
    by (simp add: model_invocations_def tool_invocations_def)
qed

theorem immediate_answer_witness:
  "(0::nat) < 25 \<and> answers_at_once (inputs ''2+2?'') = Inr (AIMessage ''4'' []) \<and>
   tool_calls (AIMessage ''4'' []) = [] \<and> ''2+2?'' \<noteq> [] \<and> 0 < questions_left initial_session \<and>
   locked_when_disabled ''2+2?'' (is_disabled initial_session) = Some ''2+2?'' \<and>
   (\<exists>s' rerun evs.
      script_run 25 (locked_when_disabled ''2+2?'') answers_at_once no_search initial_session =
        (s', Answered (content (AIMessage ''4'' [])) rerun, evs) \<and>
      model_invocations evs = 1 \<and> tool_invocations evs = 0)"
proof -
  have h0: "(0::nat) < 25" by simp
  have h1: "answers_at_once (inputs ''2+2?'') = Inr (AIMessage ''4'' [])"
    by (simp add: answers_at_once_def)
  have h2: "tool_calls (AIMessage ''4'' []) = []" by (simp add: AIMessage_def)
  have h3: "''2+2?'' \<noteq> []" by simp
  have h4: "0 < questions_left initial_session" by code_simp
  have h5: "locked_when_disabled ''2+2?'' (is_disabled initial_session) = Some ''2+2?''" by code_simp
  note c = immediate_answer[where lim = 25 and l = answers_at_once and q = "''2+2?''"
      and s = initial_session and r = "AIMessage ''4'' []" and t = no_search
      and box = "locked_when_disabled ''2+2?''", OF h0 h1 h2 h3 h4 h5]
  show ?thesis by (rule conjI[OF h0 conjI[OF h1 conjI[OF h2 conjI[OF h3 conjI[OF h4 conjI[OF h5 c]]]]]])
qed

subsection \<open>What the agent loop is run on\<close>

text \<open>
  C1 (as amended): for every accepted submission that is answered, the agent loop has
  been run over a list holding the new question alone, as one user message, whatever the
  chat history of the session holds; the first collaborator call is the model on exactly
  that list, and the answer is the content of the last message of the loop's result.
\<close>

theorem answer_comes_from_new_question_alone:
  "q \<noteq> [] \<Longrightarrow> 0 < questions_left s \<Longrightarrow> box (is_disabled s) = Some q \<Longrightarrow>
   script_run lim box l t s = (s', Answered a rerun, evs) \<Longrightarrow>
   \<exists>final. app_invoke lim l t [HumanMessage q] = final \<and> position final = AtEND \<and>
      a = content (last (transcript final)) \<and> evs = calls final \<and>
      prefix [ModelCall [HumanMessage q]] evs"
proof -
  assume q: "q \<noteq> []" and b: "box (is_disabled s) = Some q"
    and r: "script_run lim box l t s = (s', Answered a rerun, evs)"
  let ?final = "app_invoke lim l t (inputs q)"
  have "script_run lim box l t s = process_prompt lim l t s q"
    using b q by (rule script_run_accepts)
  with r have p: "process_prompt lim l t s q = (s', Answered a rerun, evs)" by simp
  have e: "position ?final = AtEND"
  proof (cases "position ?final")
    case AtAgent
    with app_invoke_ends[of lim l t "inputs q"] show ?thesis by simp
  next
    case AtCallTool
    with app_invoke_ends[of lim l t "inputs q"] show ?thesis by simp
  next
    case AtEND
    then show ?thesis .
  next
    case (Raised x)
    from process_prompt_crashed[OF this, of s] p show ?thesis by simp
  qed
  from process_prompt_answered[OF e, of s] p
  have "a = content (last (transcript ?final))" and "evs = calls ?final" by simp_all
  moreover from app_invoke_first_call[OF e] have "prefix [ModelCall (inputs q)] (calls ?final)" .
  ultimately show ?thesis using e by (simp add: inputs_def)
qed

theorem answer_comes_from_new_question_alone_witness:
  "''second'' \<noteq> [] \<and> 0 < questions_left session_after_one \<and>
   locked_when_disabled ''second'' (is_disabled session_after_one) = Some ''second'' \<and>
   script_run 25 (locked_when_disabled ''second'') echo_first no_search session_after_one =
     (session_after_one\<lparr>question_count := 2,
        messages := messages session_after_one @
          [\<lparr>role = ''user'', entry_content = ''second''\<rparr>,
           \<lparr>role = ''assistant'', entry_content = ''second''\<rparr>]\<rparr>,
      Answered ''second'' False,
      [ModelCall [HumanMessage ''second'']]) \<and>
   (\<exists>final. app_invoke 25 echo_first no_search [HumanMessage ''second''] = final \<and>
      position final = AtEND \<and> ''second'' = content (last (transcript final)) \<and>
      [ModelCall [HumanMessage ''second'']] = calls final \<and>
      prefix [ModelCall [HumanMessage ''second'']] [ModelCall [HumanMessage ''second'']])"
proof -
  have h1: "''second'' \<noteq> []" by simp
  have h2: "0 < questions_left session_after_one" by code_simp
  have h3: "locked_when_disabled ''second'' (is_disabled session_after_one) = Some ''second''"
    by code_simp
  have h4: "script_run 25 (locked_when_disabled ''second'') echo_first no_search session_after_one =
     (session_after_one\<lparr>question_count := 2,
        messages := messages session_after_one @
          [\<lparr>role = ''user'', entry_content = ''second''\<rparr>,
           \<lparr>role = ''assistant'', entry_content = ''second''\<rparr>]\<rparr>,
      Answered ''second'' False,
      [ModelCall [HumanMessage ''second'']])" by code_simp
  note c = answer_comes_from_new_question_alone[where q = "''second''" and s = session_after_one
      and lim = 25 and box = "locked_when_disabled ''second''"
      and l = echo_first and t = no_search, OF h1 h2 h3 h4]
  show ?thesis by (rule conjI[OF h1 conjI[OF h2 conjI[OF h3 conjI[OF h4 c]]]])
qed

text \<open>
  The claim as stated fails: in a session that already holds one question and its
  answer, the model is invoked on the second question alone, not on the three messages
  of the full session transcript. The stub model answers with the content of the first
  message it is given, and the answer is the second question.
\<close>

theorem loop_input_is_not_the_session_transcript:
  "script_run 25 (locked_when_disabled ''second'') echo_first no_search session_after_one =
     (session_after_one\<lparr>question_count := 2,
        messages := messages session_after_one @
          [\<lparr>role = ''user'', entry_content = ''second''\<rparr>,
           \<lparr>role = ''assistant'', entry_content = ''second''\<rparr>]\<rparr>,
      Answered ''second'' False,
      [ModelCall [HumanMessage ''second'']]) \<and>
   full_session_transcript session_after_one ''second'' =
     [HumanMessage ''first'', AIMessage ''one'' [], HumanMessage ''second''] \<and>
   [HumanMessage ''second''] \<noteq> full_session_transcript session_after_one ''second''"
  by code_simp

subsection \<open>The exhausted budget\<close>




subsection \<open>The question counter\<close>

text \<open>
  C3: the counter is meant never to exceed \<open>MAX_QUESTIONS\<close>, the maximum number of
  questions a user can ask, and the number of questions left never to be negative. The
  script does not keep to it. Three questions are answered and the graph run of the
  fourth raises, which leaves the script before the rerun that would lock the box; the
  counter is 4. The box then returns a fifth prompt although it is passed the disabled
  flag, and the script counts and processes it: the counter is 5 and the number of
  questions left is -1.
\<close>

theorem counter_passes_the_maximum:
  "run_session 25
     [locked_when_disabled ''2+2?'', locked_when_disabled ''2+2?'',
      locked_when_disabled ''2+2?'', locked_when_disabled ''crash'']
     unreachable_for_crash no_search initial_session = session_after_crash \<and>
   run_session 25
     [locked_when_disabled ''2+2?'', locked_when_disabled ''2+2?'',
      locked_when_disabled ''2+2?'', locked_when_disabled ''crash'', hands_over ''one more'']
     unreachable_for_crash no_search initial_session =
     session_after_crash\<lparr>question_count := 5,
        messages := messages session_after_crash @
          [\<lparr>role = ''user'', entry_content = ''one more''\<rparr>,
           \<lparr>role = ''assistant'', entry_content = ''4''\<rparr>]\<rparr> \<and>
   MAX_QUESTIONS = 4 \<and>
   questions_left (run_session 25
     [locked_when_disabled ''2+2?'', locked_when_disabled ''2+2?'',
      locked_when_disabled ''2+2?'', locked_when_disabled ''crash'', hands_over ''one more'']
     unreachable_for_crash no_search initial_session) = - 1"
  by code_simp

subsection \<open>A failing agent loop\<close>

text \<open>
  C4 (as amended): when the run of the graph for an accepted submission ends in an
  exception, the counter has been incremented and the user entry appended before, and
  the exception leaves the script: no answer is produced and no assistant entry is
  appended.
\<close>

theorem failure_propagates_after_increment:
  "q \<noteq> [] \<Longrightarrow> 0 < questions_left s \<Longrightarrow> box (is_disabled s) = Some q \<Longrightarrow>
   app_invoke lim l t (inputs q) = final \<Longrightarrow> position final = Raised e \<Longrightarrow>
   script_run lim box l t s =
     (s\<lparr>question_count := question_count s + 1,
        messages := messages s @ [\<lparr>role = ''user'', entry_content = q\<rparr>]\<rparr>,
      Crashed e, calls final)"
proof -
  assume q: "q \<noteq> []" and b: "box (is_disabled s) = Some q"
    and r: "app_invoke lim l t (inputs q) = final" and e: "position final = Raised e"
  have "script_run lim box l t s = process_prompt lim l t s q"
    using b q by (rule script_run_accepts)
  moreover from r e have "position (app_invoke lim l t (inputs q)) = Raised e" by simp
  from process_prompt_crashed[OF this, of s] r
  have "process_prompt lim l t s q =
     (s\<lparr>question_count := question_count s + 1,
        messages := messages s @ [\<lparr>role = ''user'', entry_content = q\<rparr>]\<rparr>,
      Crashed e, calls final)" by simp
  ultimately show ?thesis by simp
qed

theorem failure_propagates_after_increment_witness:
  "''2+2?'' \<noteq> [] \<and> 0 < questions_left initial_session \<and>
   locked_when_disabled ''2+2?'' (is_disabled initial_session) = Some ''2+2?'' \<and>
   app_invoke 25 unreachable_llm no_search (inputs ''2+2?'') = unreachable_run \<and>
   position unreachable_run = Raised (CollaboratorError ''model unreachable'') \<and>
   script_run 25 (locked_when_disabled ''2+2?'') unreachable_llm no_search initial_session =
     (initial_session\<lparr>question_count := question_count initial_session + 1,
        messages := messages initial_session @ [\<lparr>role = ''user'', entry_content = ''2+2?''\<rparr>]\<rparr>,
      Crashed (CollaboratorError ''model unreachable''), calls unreachable_run)"
proof -
  have h1: "''2+2?'' \<noteq> []" by simp
  have h2: "0 < questions_left initial_session" by code_simp
  have h3: "locked_when_disabled ''2+2?'' (is_disabled initial_session) = Some ''2+2?''" by code_simp
  have h4: "app_invoke 25 unreachable_llm no_search (inputs ''2+2?'') = unreachable_run" by code_simp
  have h5: "position unreachable_run = Raised (CollaboratorError ''model unreachable'')"
    by (simp add: unreachable_run_def)
  note c = failure_propagates_after_increment[where q = "''2+2?''" and s = initial_session
      and lim = 25 and box = "locked_when_disabled ''2+2?''"
      and l = unreachable_llm and t = no_search and final = unreachable_run, OF h1 h2 h3 h4 h5]
  show ?thesis by (rule conjI[OF h1 conjI[OF h2 conjI[OF h3 conjI[OF h4 conjI[OF h5 c]]]]])
qed

text \<open>
  The claim as stated fails: with a model that cannot be reached the script run ends in
  the exception, not in an answer that carries an error text.
\<close>

theorem model_failure_is_not_answered:
  "script_run 25 (locked_when_disabled ''2+2?'') unreachable_llm no_search initial_session =
     (\<lparr>messages = [\<lparr>role = ''user'', entry_content = ''2+2?''\<rparr>], question_count = 1\<rparr>,
      Crashed (CollaboratorError ''model unreachable''),
      [ModelCall [HumanMessage ''2+2?'']])"
  by code_simp

subsection \<open>Append-only transcripts\<close>



subsection \<open>Entries appended by a submission\<close>

text \<open>
  C10 (as amended): every accepted submission increments the counter by exactly one, and
  one whose graph run returns normally appends exactly two entries to the chat history,
  the user entry with the question followed by the assistant entry with the content of
  the last message of the run; the other messages of the run are not stored in the chat
  history.
\<close>

theorem accepted_submission_appends_two:
  "q \<noteq> [] \<Longrightarrow> 0 < questions_left s \<Longrightarrow> box (is_disabled s) = Some q \<Longrightarrow>
   app_invoke lim l t (inputs q) = final \<Longrightarrow>
   question_count (fst (script_run lim box l t s)) = question_count s + 1 \<and>
   (position final = AtEND \<longrightarrow>
     (\<exists>s' rerun.
       script_run lim box l t s = (s', Answered (content (last (transcript final))) rerun, calls final) \<and>
       messages s' = messages s @
         [\<lparr>role = ''user'', entry_content = q\<rparr>,
          \<lparr>role = ''assistant'', entry_content = content (last (transcript final))\<rparr>] \<and>
       length (messages s') = length (messages s) + 2 \<and>
       question_count s' = question_count s + 1))"
proof -
  assume q: "q \<noteq> []" and b: "box (is_disabled s) = Some q"
    and r: "app_invoke lim l t (inputs q) = final"
  have p: "script_run lim box l t s = process_prompt lim l t s q"
    using b q by (rule script_run_accepts)
  have "question_count (fst (script_run lim box l t s)) = question_count s + 1"
    by (simp add: p process_prompt_effect(1))
  moreover have "\<exists>s' rerun.
       script_run lim box l t s = (s', Answered (content (last (transcript final))) rerun, calls final) \<and>
       messages s' = messages s @
         [\<lparr>role = ''user'', entry_content = q\<rparr>,
          \<lparr>role = ''assistant'', entry_content = content (last (transcript final))\<rparr>] \<and>
       length (messages s') = length (messages s) + 2 \<and>
       question_count s' = question_count s + 1"
    if e: "position final = AtEND"
  proof -
    from r e have "position (app_invoke lim l t (inputs q)) = AtEND" by simp
    from process_prompt_answered[OF this, of s] p r show ?thesis by simp
  qed
  ultimately show ?thesis by blast
qed

theorem accepted_submission_appends_two_witness:
  "''Apple?'' \<noteq> [] \<and> 0 < questions_left initial_session \<and>
   locked_when_disabled ''Apple?'' (is_disabled initial_session) = Some ''Apple?'' \<and>
   app_invoke 25 asks_price_then_answers price_search (inputs ''Apple?'') = apple_run \<and>
   position apple_run = AtEND \<and>
   question_count (fst (script_run 25 (locked_when_disabled ''Apple?'') asks_price_then_answers
      price_search initial_session)) = question_count initial_session + 1 \<and>
   (\<exists>s' rerun.
     script_run 25 (locked_when_disabled ''Apple?'') asks_price_then_answers price_search
       initial_session =
       (s', Answered (content (last (transcript apple_run))) rerun, calls apple_run) \<and>
     messages s' = messages initial_session @
       [\<lparr>role = ''user'', entry_content = ''Apple?''\<rparr>,
        \<lparr>role = ''assistant'', entry_content = content (last (transcript apple_run))\<rparr>] \<and>
     length (messages s') = length (messages initial_session) + 2 \<and>
     question_count s' = question_count initial_session + 1)"
proof -
  have h1: "''Apple?'' \<noteq> []" by simp
  have h2: "0 < questions_left initial_session" by code_simp
  have h3: "locked_when_disabled ''Apple?'' (is_disabled initial_session) = Some ''Apple?''"
    by code_simp
  have h4: "app_invoke 25 asks_price_then_answers price_search (inputs ''Apple?'') = apple_run"
    by code_simp
  have h5: "position apple_run = AtEND" by (simp add: apple_run_def)
  note c = accepted_submission_appends_two[where q = "''Apple?''" and s = initial_session
      and lim = 25 and box = "locked_when_disabled ''Apple?''"
      and l = asks_price_then_answers and t = price_search and final = apple_run, OF h1 h2 h3 h4]
  note c1 = c[THEN conjunct1]
  note c2 = c[THEN conjunct2, rule_format, OF h5]
  show ?thesis
    by (rule conjI[OF h1 conjI[OF h2 conjI[OF h3 conjI[OF h4 conjI[OF h5 conjI[OF c1 c2]]]]]])
qed

text \<open>
  The claim as stated fails: an accepted submission whose graph run raises appends the
  user entry only. In a session that holds one question and its answer, a second
  question with a model that cannot be reached leaves three entries, not four.
\<close>

theorem crashed_submission_appends_one_entry:
  "0 < questions_left session_after_one \<and>
   script_run 25 (locked_when_disabled ''second'') unreachable_llm no_search session_after_one =
     (\<lparr>messages = [\<lparr>role = ''user'', entry_content = ''first''\<rparr>,
                   \<lparr>role = ''assistant'', entry_content = ''one''\<rparr>,
                   \<lparr>role = ''user'', entry_content = ''second''\<rparr>],
       question_count = 2\<rparr>,
      Crashed (CollaboratorError ''model unreachable''),
      [ModelCall [HumanMessage ''second'']]) \<and>
   length (messages (fst (script_run 25 (locked_when_disabled ''second'') unreachable_llm
      no_search session_after_one))) = length (messages session_after_one) + 1"
  by code_simp

subsection \<open>Termination of the loop\<close>

text \<open>
  C6 (as amended): every run of the graph ends. If at a step below the recursion limit
  of the engine the graph is at the agent node and the model answers the state with a
  message without tool calls, \<^verbatim>\<open>app.invoke\<close> returns, at the end node, with that message
  last; if the graph is still running when the limit is reached, \<^verbatim>\<open>app.invoke\<close> ends in
  \<^verbatim>\<open>GraphRecursionError\<close>. In every run a step at the tool node is followed by the agent
  node. The script adds no cap of its own: under a limit of at least \<open>2 * k + 1\<close> there
  is a model with which the run makes \<open>k\<close> tool rounds and \<open>k + 1\<close> model calls and
  returns normally.
\<close>

theorem loop_ends_within_the_recursion_limit:
  "\<not> running (position (app_invoke lim l t inp)) \<and>
   (n < lim \<and> position ((step l t ^^ n) (entry_config inp)) = AtAgent \<and>
    l (transcript ((step l t ^^ n) (entry_config inp))) = Inr r \<and> tool_calls r = [] \<longrightarrow>
      position (app_invoke lim l t inp) = AtEND \<and>
      last (transcript (app_invoke lim l t inp)) = r) \<and>
   (running (position ((step la t ^^ lima) (entry_config inpa))) \<longrightarrow>
      position (app_invoke lima la t inpa) = Raised GraphRecursionError) \<and>
   (position ((step l t ^^ m) (entry_config inp)) = AtCallTool \<longrightarrow>
      position ((step l t ^^ Suc m) (entry_config inp)) = AtAgent) \<and>
   (2 * k + 1 \<le> lim \<longrightarrow>
      position (app_invoke lim (keeps_asking k) t (inputs q)) = AtEND \<and>
      model_invocations (calls (app_invoke lim (keeps_asking k) t (inputs q))) = k + 1 \<and>
      tool_invocations (calls (app_invoke lim (keeps_asking k) t (inputs q))) = k)"
proof (intro conjI impI)
  show "\<not> running (position (app_invoke lim l t inp))" by (rule app_invoke_ends)
next
  assume a: "n < lim \<and> position ((step l t ^^ n) (entry_config inp)) = AtAgent \<and>
    l (transcript ((step l t ^^ n) (entry_config inp))) = Inr r \<and> tool_calls r = []"
  then have e: "run lim l t (entry_config inp) =
      \<lparr>position = AtEND,
       transcript = transcript ((step l t ^^ n) (entry_config inp)) @ [r],
       calls = calls ((step l t ^^ n) (entry_config inp)) @
                 [ModelCall (transcript ((step l t ^^ n) (entry_config inp)))]\<rparr>"
    using run_ends_when_model_stops_asking[where c = "entry_config inp" and n = n and lim = lim
        and l = l and t = t and r = r]
    by blast
  show "position (app_invoke lim l t inp) = AtEND" by (simp add: app_invoke_def e)
  show "last (transcript (app_invoke lim l t inp)) = r" by (simp add: app_invoke_def e)
next
  assume "running (position ((step la t ^^ lima) (entry_config inpa)))"
  then show "position (app_invoke lima la t inpa) = Raised GraphRecursionError"
    by (simp add: app_invoke_def run_out_of_steps)
next
  assume "position ((step l t ^^ m) (entry_config inp)) = AtCallTool"
  then show "position ((step l t ^^ Suc m) (entry_config inp)) = AtAgent"
    by (rule tool_step_returns_to_agent)
next
  assume a: "2 * k + 1 \<le> lim"
  note c = no_cap_below_the_limit[OF a, of t q]
  from c show "position (app_invoke lim (keeps_asking k) t (inputs q)) = AtEND" by blast
  from c show "model_invocations (calls (app_invoke lim (keeps_asking k) t (inputs q))) = k + 1"
    by blast
  from c show "tool_invocations (calls (app_invoke lim (keeps_asking k) t (inputs q))) = k"
    by blast
qed

theorem loop_ends_within_the_recursion_limit_witness:
  "\<not> running (position (app_invoke 25 asks_price_then_answers price_search (inputs ''Apple?''))) \<and>
   (2::nat) < 25 \<and>
   position ((step asks_price_then_answers price_search ^^ 2) (entry_config (inputs ''Apple?''))) = AtAgent \<and>
   asks_price_then_answers
     (transcript ((step asks_price_then_answers price_search ^^ 2) (entry_config (inputs ''Apple?'')))) =
     Inr (AIMessage ''The price is $150'' []) \<and>
   tool_calls (AIMessage ''The price is $150'' []) = [] \<and>
   position (app_invoke 25 asks_price_then_answers price_search (inputs ''Apple?'')) = AtEND \<and>
   last (transcript (app_invoke 25 asks_price_then_answers price_search (inputs ''Apple?''))) =
     AIMessage ''The price is $150'' [] \<and>
   running (position ((step (keeps_asking 2) price_search ^^ 3) (entry_config (inputs ''Apple?'')))) \<and>
   position (app_invoke 3 (keeps_asking 2) price_search (inputs ''Apple?'')) =
     Raised GraphRecursionError \<and>
   position ((step asks_price_then_answers price_search ^^ 1) (entry_config (inputs ''Apple?''))) = AtCallTool \<and>
   position ((step asks_price_then_answers price_search ^^ Suc 1) (entry_config (inputs ''Apple?''))) = AtAgent \<and>
   (2::nat) * 12 + 1 \<le> 25 \<and>
   position (app_invoke 25 (keeps_asking 12) price_search (inputs ''Apple?'')) = AtEND \<and>
   model_invocations (calls (app_invoke 25 (keeps_asking 12) price_search (inputs ''Apple?''))) = 12 + 1 \<and>
   tool_invocations (calls (app_invoke 25 (keeps_asking 12) price_search (inputs ''Apple?''))) = 12"
proof -
  let ?l = asks_price_then_answers and ?t = price_search and ?c = "entry_config (inputs ''Apple?'')"
  let ?r = "AIMessage ''The price is $150'' []"
  have h0: "(2::nat) < 25" by simp
  have h1: "position ((step ?l ?t ^^ 2) ?c) = AtAgent" by code_simp
  have h2: "?l (transcript ((step ?l ?t ^^ 2) ?c)) = Inr ?r" by code_simp
  have h3: "tool_calls ?r = []" by (simp add: AIMessage_def)
  have h4: "position ((step ?l ?t ^^ 1) ?c) = AtCallTool" by code_simp
  have h5: "running (position ((step (keeps_asking 2) ?t ^^ 3) ?c))" by code_simp
  have h6: "(2::nat) * 12 + 1 \<le> 25" by simp
  note inst = loop_ends_within_the_recursion_limit[where l = ?l and t = ?t and n = 2
      and lim = 25 and inp = "inputs ''Apple?''" and r = ?r and m = 1 and k = 12
      and q = "''Apple?''" and la = "keeps_asking 2" and lima = 3 and inpa = "inputs ''Apple?''"]
  from inst have c0: "\<not> running (position (app_invoke 25 ?l ?t (inputs ''Apple?'')))" by blast
  from inst h0 h1 h2 h3 have c1: "position (app_invoke 25 ?l ?t (inputs ''Apple?'')) = AtEND"
    and c1': "last (transcript (app_invoke 25 ?l ?t (inputs ''Apple?''))) = ?r" by blast+
  from inst h5 have c2: "position (app_invoke 3 (keeps_asking 2) ?t (inputs ''Apple?'')) =
     Raised GraphRecursionError" by blast
  from inst h4 have c3: "position ((step ?l ?t ^^ Suc 1) ?c) = AtAgent" by blast
  from inst h6 have c4: "position (app_invoke 25 (keeps_asking 12) ?t (inputs ''Apple?'')) = AtEND"
    and c5: "model_invocations (calls (app_invoke 25 (keeps_asking 12) ?t (inputs ''Apple?''))) = 12 + 1"
    and c6: "tool_invocations (calls (app_invoke 25 (keeps_asking 12) ?t (inputs ''Apple?''))) = 12"
    by blast+
  show ?thesis
    by (rule conjI[OF c0 conjI[OF h0 conjI[OF h1 conjI[OF h2 conjI[OF h3 conjI[OF c1 conjI[OF c1'
          conjI[OF h5 conjI[OF c2 conjI[OF h4 conjI[OF c3 conjI[OF h6 conjI[OF c4 conjI[OF c5 c6]]]]]]]]]]]]]])
qed

text \<open>
  The claim as stated fails: a model that returns a message without tool calls after
  finitely many rounds does not make the loop return when that takes more steps than
  the limit. Under a limit of 25 a model that answers after 13 tool rounds, at step 26,
  is never asked for that answer: the run ends in \<^verbatim>\<open>GraphRecursionError\<close>.
\<close>

theorem model_that_would_answer_is_cut_off:
  "position ((step (keeps_asking 13) price_search ^^ 26) (entry_config (inputs ''Apple?''))) = AtAgent \<and>
   keeps_asking 13
     (transcript ((step (keeps_asking 13) price_search ^^ 26) (entry_config (inputs ''Apple?'')))) =
     Inr (AIMessage ''done'' []) \<and>
   tool_calls (AIMessage ''done'' []) = [] \<and>
   position (app_invoke 25 (keeps_asking 13) price_search (inputs ''Apple?'')) =
     Raised GraphRecursionError"
proof -
  have "(25::nat) < 2 * 13 + 1" by simp
  then have "position (app_invoke 25 (keeps_asking 13) price_search (inputs ''Apple?'')) =
     Raised GraphRecursionError" by (rule keeps_asking_cut_off)
  moreover have "tool_calls (AIMessage ''done'' []) = []" by (simp add: AIMessage_def)
  ultimately show ?thesis
    using keeps_asking_answers_late[of 13 price_search "''Apple?''"] by simp
qed

subsection \<open>A failing tool call\<close>



end
